theory Spec2Isabelle
  imports Main "HOL-Library.AList" "HOL-Library.Sublist"
begin

section \<open>The values an ObjectCollection holds\<close>

text \<open>
  \<open>ObjectCollection\<close> is a subclass of Python's \<open>list\<close>; a collection is modelled by
  the list of its elements. The elements are Python values. The model covers \<open>None\<close>,
  booleans, integers, strings, dictionaries with string keys (in insertion order), plain
  data objects (instances of a class without special methods or properties, given by
  their attributes) and callables. A callable is the index of its behaviour in a function
  table that belongs to the runtime.

  Values are immutable in the model. A dictionary that \<open>__merge_trees\<close> grows in place
  is returned as a new value; the trees merged are taken not to share nested dictionaries.
\<close>

datatype pyval =
    PNone
  | PBool bool
  | PInt int
  | PStr string
  | PDict "(string \<times> pyval) list"
  | PObj "(string \<times> pyval) list"
  | PFun nat

datatype error = AttributeError | TypeError | ValueError | KeyError | Raised string

text \<open>Positional and keyword arguments of a call: \<open>*args, **kwargs\<close>.\<close>

type_synonym args = "pyval list \<times> (string \<times> pyval) list"

text \<open>
  What the Python runtime and the caller supply: the behaviour of each callable, the
  attributes of the values of built-in types (such as \<open>str.capitalize\<close>), and the
  names that ordinary attribute lookup finds on the \<open>list\<close> and \<open>object\<close> bases of
  the class (such as \<open>append\<close> or \<open>__len__\<close>).
\<close>

record runtime =
  fun_table :: "nat \<Rightarrow> args \<Rightarrow> error + pyval"
  builtin_attr :: "pyval \<Rightarrow> string \<Rightarrow> pyval option"
  base_defines :: "string \<Rightarrow> bool"

definition no_args :: args where
  "no_args = ([], [])"

text \<open>Truth value testing: \<open>if obj\<close>, \<open>not other\<close>.\<close>

fun py_truthy :: "pyval \<Rightarrow> bool" where
  "py_truthy PNone = False"
| "py_truthy (PBool b) = b"
| "py_truthy (PInt i) = (i \<noteq> 0)"
| "py_truthy (PStr s) = (s \<noteq> [])"
| "py_truthy (PDict kvs) = (kvs \<noteq> [])"
| "py_truthy (PObj attrs) = True"
| "py_truthy (PFun n) = True"

text \<open>
  Attribute lookup on an element, for a name that is not a reserved one; \<open>None\<close> stands
  for the \<open>AttributeError\<close> that \<open>getattr\<close> with a default catches. A plain object
  has the attributes it was given; the attributes of any other value are the runtime's.
\<close>

fun py_getattr :: "runtime \<Rightarrow> pyval \<Rightarrow> string \<Rightarrow> pyval option" where
  "py_getattr rt (PObj attrs) name = map_of attrs name"
| "py_getattr rt v name = builtin_attr rt v name"

text \<open>\<open>getattr(obj, name, default)\<close>.\<close>

definition getattr_default :: "runtime \<Rightarrow> pyval \<Rightarrow> string \<Rightarrow> pyval \<Rightarrow> pyval" where
  "getattr_default rt obj name d = (case py_getattr rt obj name of Some v \<Rightarrow> v | None \<Rightarrow> d)"

text \<open>\<open>obj(*args, **kwargs)\<close>: only a callable can be called.\<close>

fun py_call :: "runtime \<Rightarrow> pyval \<Rightarrow> args \<Rightarrow> error + pyval" where
  "py_call rt (PFun n) a = fun_table rt n a"
| "py_call rt v a = Inl TypeError"

text \<open>\<open>str.startswith\<close> and \<open>str.endswith\<close>.\<close>

definition startswith :: "string \<Rightarrow> string \<Rightarrow> bool" where
  "startswith s p = (take (length p) s = p)"

definition endswith :: "string \<Rightarrow> string \<Rightarrow> bool" where
  "endswith s p = (length p \<le> length s \<and> drop (length s - length p) s = p)"

definition reserved :: "string \<Rightarrow> bool" where
  "reserved name = (startswith name ''__'' \<and> endswith name ''__'')"

section \<open>Broadcasts, filter and apply\<close>

text \<open>\<open>__init__\<close>: the list constructor copies the sequence, sharing the elements.\<close>

definition ObjectCollection :: "pyval list \<Rightarrow> pyval list" where
  "ObjectCollection object_list = object_list"

text \<open>\<open>__getattr__\<close>, the hook Python calls when ordinary lookup finds nothing.\<close>

definition oc_getattr :: "runtime \<Rightarrow> pyval list \<Rightarrow> string \<Rightarrow> error + pyval list" where
  "oc_getattr rt self name =
     (if reserved name then Inl AttributeError
      else Inr (ObjectCollection (map (\<lambda>obj. getattr_default rt obj name (PBool False)) self)))"

text \<open>
  A list comprehension whose element expression may raise: the elements are evaluated
  from left to right and the first exception ends the comprehension.
\<close>

fun comprehension :: "('a \<Rightarrow> error + 'b) \<Rightarrow> 'a list \<Rightarrow> error + 'b list" where
  "comprehension f [] = Inr []"
| "comprehension f (x # xs) =
     (case f x of
        Inl e \<Rightarrow> Inl e
      | Inr y \<Rightarrow> (case comprehension f xs of Inl e \<Rightarrow> Inl e | Inr ys \<Rightarrow> Inr (y # ys)))"

text \<open>\<open>__call__\<close>.\<close>

definition oc_call :: "runtime \<Rightarrow> pyval list \<Rightarrow> args \<Rightarrow> error + pyval list" where
  "oc_call rt self a =
     (case comprehension (\<lambda>obj. if py_truthy obj then py_call rt obj a else Inr PNone) self of
        Inl e \<Rightarrow> Inl e
      | Inr r \<Rightarrow> Inr (ObjectCollection r))"

text \<open>
  \<open>filter\<close>. The caller's \<open>filter_function\<close> is given by its behaviour: for each
  element, the value it returns or the exception it raises.
\<close>

fun filter_comprehension :: "(pyval \<Rightarrow> error + pyval) \<Rightarrow> pyval list \<Rightarrow> error + pyval list" where
  "filter_comprehension f [] = Inr []"
| "filter_comprehension f (obj # objs) =
     (case f obj of
        Inl e \<Rightarrow> Inl e
      | Inr t \<Rightarrow>
          (case filter_comprehension f objs of
             Inl e \<Rightarrow> Inl e
           | Inr r \<Rightarrow> Inr (if py_truthy t then obj # r else r)))"

definition filter_oc :: "pyval list \<Rightarrow> (pyval \<Rightarrow> error + pyval) \<Rightarrow> error + pyval list" where
  "filter_oc self filter_function =
     (case filter_comprehension filter_function self of
        Inl e \<Rightarrow> Inl e
      | Inr r \<Rightarrow> Inr (ObjectCollection r))"

text \<open>\<open>apply\<close>.\<close>

definition apply_oc :: "pyval list \<Rightarrow> (pyval \<Rightarrow> error + pyval) \<Rightarrow> error + pyval list" where
  "apply_oc self function =
     (case comprehension function self of
        Inl e \<Rightarrow> Inl e
      | Inr r \<Rightarrow> Inr (ObjectCollection r))"

text \<open>
  Attribute access on a collection, \<open>coll.name\<close>. Python looks the name up on the
  instance, its class and the bases of the class first and calls \<open>__getattr__\<close> only
  when that finds nothing. \<open>class_names\<close> are the names the class statement gives the
  class: the methods of its body (the private \<open>__merge_trees\<close> under its mangled
  name), its docstring \<open>__doc__\<close>, and \<open>__module__\<close>, \<open>__dict__\<close> and
  \<open>__weakref__\<close>, which Python adds to a class that declares no slots. The runtime
  says what the bases define. A collection is given no attribute of its own after its
  construction.
\<close>

definition class_names :: "string list" where
  "class_names =
     [''__module__'', ''__doc__'', ''__init__'', ''__getattr__'', ''__call__'', ''filter'',
      ''apply'', ''_ObjectCollection__merge_trees'', ''collection_tree'', ''__dict__'',
      ''__weakref__'']"

datatype access = Own string | Broadcast "pyval list"

definition attribute_access :: "runtime \<Rightarrow> pyval list \<Rightarrow> string \<Rightarrow> error + access" where
  "attribute_access rt self name =
     (if name \<in> set class_names \<or> base_defines rt name then Inr (Own name)
      else (case oc_getattr rt self name of
              Inl e \<Rightarrow> Inl e
            | Inr r \<Rightarrow> Inr (Broadcast r)))"

section \<open>Merging trees\<close>

text \<open>
  Iteration over a value, \<open>for x in r\<close>: a dictionary yields its keys, a string its
  characters, and no other value of the model is iterable.
\<close>

definition py_iter :: "pyval \<Rightarrow> error + string list" where
  "py_iter r =
     (case r of
        PDict kvs \<Rightarrow> Inr (map fst kvs)
      | PStr s \<Rightarrow> Inr (map (\<lambda>c. [c]) s)
      | _ \<Rightarrow> Inl TypeError)"

text \<open>
  The unpacking \<open>key, value = x\<close> of an iterated string: it succeeds on a string of two
  characters only.
\<close>

definition unpack_pair :: "string \<Rightarrow> error + (string \<times> pyval)" where
  "unpack_pair s = (case s of [k, v] \<Rightarrow> Inr ([k], PStr [v]) | _ \<Rightarrow> Inl ValueError)"

text \<open>
  \<open>for key, value in other.items()\<close>: the pairs the loop sees, each of them the pair
  or the exception its unpacking raises. A dictionary yields its items. A plain object
  answers with whatever its own attribute \<open>items\<close> returns when called; the other
  values have no attribute \<open>items\<close>.
\<close>

definition py_items :: "runtime \<Rightarrow> pyval \<Rightarrow> error + (error + string \<times> pyval) list" where
  "py_items rt other =
     (case other of
        PDict kvs \<Rightarrow> Inr (map Inr kvs)
      | PObj attrs \<Rightarrow>
          (case map_of attrs ''items'' of
             None \<Rightarrow> Inl AttributeError
           | Some m \<Rightarrow>
               (case py_call rt m no_args of
                  Inl e \<Rightarrow> Inl e
                | Inr r \<Rightarrow>
                    (case py_iter r of
                       Inl e \<Rightarrow> Inl e
                     | Inr ss \<Rightarrow> Inr (map unpack_pair ss))))
      | _ \<Rightarrow> Inl AttributeError)"

text \<open>\<open>key in target\<close>, \<open>target[key]\<close> and \<open>target[key] = value\<close> for a string key.\<close>

fun py_contains :: "pyval \<Rightarrow> string \<Rightarrow> error + bool" where
  "py_contains (PDict kvs) key = Inr (key \<in> set (map fst kvs))"
| "py_contains (PStr s) key = Inr (sublist key s)"
| "py_contains v key = Inl TypeError"

fun py_getitem :: "pyval \<Rightarrow> string \<Rightarrow> error + pyval" where
  "py_getitem (PDict kvs) key = (case map_of kvs key of Some v \<Rightarrow> Inr v | None \<Rightarrow> Inl KeyError)"
| "py_getitem v key = Inl TypeError"

fun py_setitem :: "pyval \<Rightarrow> string \<Rightarrow> pyval \<Rightarrow> error + pyval" where
  "py_setitem (PDict kvs) key v = Inr (PDict (AList.update key v kvs))"
| "py_setitem t key v = Inl TypeError"

text \<open>
  The recursive call of \<open>__merge_trees\<close> changes the object stored under \<open>key\<close> in
  place; \<open>mutated\<close> is the target that holds the changed object.
\<close>

fun mutated :: "pyval \<Rightarrow> string \<Rightarrow> pyval \<Rightarrow> pyval" where
  "mutated (PDict kvs) key sub = PDict (AList.update key sub kvs)"
| "mutated t key sub = t"

fun item_size :: "error + string \<times> pyval \<Rightarrow> nat" where
  "item_size (Inl e) = 0"
| "item_size (Inr (k, v)) = Suc (size v)"

fun items_bound :: "(error + string \<times> pyval) list \<Rightarrow> nat" where
  "items_bound [] = 0"
| "items_bound (it # its) = max (item_size it) (items_bound its)"

text \<open>
  \<open>__merge_trees\<close>: \<open>merge_trees\<close> is the function, \<open>merge_items\<close> its loop over
  the items still to come. The result is the target after the call, or the exception.
\<close>

function merge_trees :: "runtime \<Rightarrow> pyval \<Rightarrow> pyval \<Rightarrow> error + pyval"
  and merge_items :: "runtime \<Rightarrow> pyval \<Rightarrow> (error + string \<times> pyval) list \<Rightarrow> error + pyval"
where
  "merge_trees rt target other =
     (if \<not> py_truthy other then Inr target
      else (case py_items rt other of
              Inl e \<Rightarrow> Inl e
            | Inr its \<Rightarrow> merge_items rt target its))"
| "merge_items rt target [] = Inr target"
| "merge_items rt target (it # its) =
     (case it of
        Inl e \<Rightarrow> Inl e
      | Inr (key, value) \<Rightarrow>
          (case py_contains target key of
             Inl e \<Rightarrow> Inl e
           | Inr False \<Rightarrow>
               (case py_setitem target key value of
                  Inl e \<Rightarrow> Inl e
                | Inr target' \<Rightarrow> merge_items rt target' its)
           | Inr True \<Rightarrow>
               (case py_getitem target key of
                  Inl e \<Rightarrow> Inl e
                | Inr sub \<Rightarrow>
                    (case merge_trees rt sub value of
                       Inl e \<Rightarrow> Inl e
                     | Inr sub' \<Rightarrow> merge_items rt (mutated target key sub') its))))"
  by pat_completeness auto

lemma items_bound_PDict: "items_bound (map Inr kvs) \<le> size (PDict kvs)"
  by (induction kvs) auto

lemma unpack_pair_size: "item_size (unpack_pair s) \<le> Suc 0"
  by (auto simp: unpack_pair_def split: list.splits)

lemma items_bound_unpack: "items_bound (map unpack_pair ss) \<le> Suc 0"
  by (induction ss) (auto simp: unpack_pair_size)

lemma py_items_bound:
  assumes items: "py_items rt other = Inr its"
  shows "items_bound its \<le> size other"
proof (cases other)
  case (PDict kvs)
  with items show ?thesis using items_bound_PDict [of kvs] by (auto simp: py_items_def)
next
  case (PObj attrs)
  with items obtain ss where "its = map unpack_pair ss"
    by (auto simp: py_items_def split: option.splits sum.splits)
  with PObj show ?thesis using items_bound_unpack [of ss] by simp
qed (use items in \<open>auto simp: py_items_def\<close>)

termination merge_trees
proof (relation "inv_image (less_than <*lex*> less_than <*lex*> less_than)
     (\<lambda>x. case x of Inl (rt, target, other) \<Rightarrow> (size other, 1::nat, 0::nat)
                 | Inr (rt, target, its) \<Rightarrow> (items_bound its, 0, length its))", goal_cases)
  case 1
  show ?case by (intro wf_inv_image wf_lex_prod wf_less_than)
next
  case (2 rt target other its)
  then show ?case using py_items_bound [of rt other its] by auto
next
  case 3
  then show ?case by auto
next
  case 4
  then show ?case by auto
next
  case 5
  then show ?case by auto
qed

text \<open>The loop of \<open>collection_tree\<close>: each tree is merged into the accumulator.\<close>

fun merge_all :: "runtime \<Rightarrow> pyval \<Rightarrow> pyval list \<Rightarrow> error + pyval" where
  "merge_all rt acc [] = Inr acc"
| "merge_all rt acc (tree # trees) =
     (case merge_trees rt acc tree of
        Inl e \<Rightarrow> Inl e
      | Inr acc' \<Rightarrow> merge_all rt acc' trees)"

text \<open>
  \<open>collection_tree\<close>. \<open>self.tree\<close> is no name of the class or of \<open>list\<close>, so it
  is the attribute broadcast; the call broadcast follows, and all the trees are there
  before the first merge.
\<close>

definition collection_tree :: "runtime \<Rightarrow> pyval list \<Rightarrow> error + pyval" where
  "collection_tree rt self =
     (case oc_getattr rt self ''tree'' of
        Inl e \<Rightarrow> Inl e
      | Inr methods \<Rightarrow>
          (case oc_call rt methods no_args of
             Inl e \<Rightarrow> Inl e
           | Inr trees \<Rightarrow> merge_all rt (PDict []) trees))"

section \<open>Notions the statements use\<close>

text \<open>
  A predicate holds of an element when its call returns a truthy value. The conjunction
  of two predicates is Python's \<open>lambda obj: p(obj) and q(obj)\<close>: \<open>q\<close> is called only
  when \<open>p\<close> returned a truthy value.
\<close>

definition satisfies :: "(pyval \<Rightarrow> error + pyval) \<Rightarrow> pyval \<Rightarrow> bool" where
  "satisfies p obj = (case p obj of Inl e \<Rightarrow> False | Inr t \<Rightarrow> py_truthy t)"

definition py_and ::
  "(pyval \<Rightarrow> error + pyval) \<Rightarrow> (pyval \<Rightarrow> error + pyval) \<Rightarrow> pyval \<Rightarrow> error + pyval" where
  "py_and p q obj = (case p obj of Inl e \<Rightarrow> Inl e | Inr t \<Rightarrow> if py_truthy t then q obj else Inr t)"

text \<open>
  The tree that \<open>collection_tree\<close> obtains from one element: what the two broadcasts of
  \<open>self.tree()\<close> compute at the element's position (\<open>collection_tree_conv\<close> and
  \<open>tree_of_broadcasts\<close> below).
\<close>

definition tree_of :: "runtime \<Rightarrow> pyval \<Rightarrow> error + pyval" where
  "tree_of rt obj =
     (let m = getattr_default rt obj ''tree'' (PBool False)
      in if py_truthy m then py_call rt m no_args else Inr PNone)"

text \<open>
  \<open>grown old new\<close>: the value \<open>new\<close> is \<open>old\<close> after insertions only. A value
  that is not a mapping is unchanged; a mapping is a mapping still, and each of its keys
  is still there, with a value grown out of the one it had.
\<close>

lemma map_of_size: "map_of kvs k = Some v \<Longrightarrow> size v < size (PDict kvs)"
  by (induction kvs) (auto split: if_splits)

function grown :: "pyval \<Rightarrow> pyval \<Rightarrow> bool" where
  "grown (PDict kvs) new =
     (case new of
        PDict kvs' \<Rightarrow>
          list_all (\<lambda>k. case map_of kvs k of
                           None \<Rightarrow> True
                         | Some v \<Rightarrow> (case map_of kvs' k of None \<Rightarrow> False | Some v' \<Rightarrow> grown v v'))
            (map fst kvs)
      | _ \<Rightarrow> False)"
| "grown PNone new = (new = PNone)"
| "grown (PBool b) new = (new = PBool b)"
| "grown (PInt i) new = (new = PInt i)"
| "grown (PStr s) new = (new = PStr s)"
| "grown (PObj attrs) new = (new = PObj attrs)"
| "grown (PFun n) new = (new = PFun n)"
  by pat_completeness auto

termination grown
  by (relation "measure (\<lambda>(old, new). size old)") (auto dest: map_of_size)

section \<open>A runtime for the examples\<close>

text \<open>
  In the examples, the callable \<open>PFun n\<close> returns the \<open>n\<close>-th value of a list of
  results whatever its arguments are, and raises when there is no such value. None of the
  attribute names the examples look up on a value of a built-in type is an attribute of
  it. The bases define the names that CPython 3.11 gives a list: \<open>list_names\<close>, which
  hold those of \<open>object\<close>.
\<close>

definition list_names :: "string list" where
  "list_names =
     [''__add__'', ''__class__'', ''__class_getitem__'', ''__contains__'', ''__delattr__'',
      ''__delitem__'', ''__dir__'', ''__doc__'', ''__eq__'', ''__format__'', ''__ge__'',
      ''__getattribute__'', ''__getitem__'', ''__getstate__'', ''__gt__'', ''__hash__'',
      ''__iadd__'', ''__imul__'', ''__init__'', ''__init_subclass__'', ''__iter__'', ''__le__'',
      ''__len__'', ''__lt__'', ''__mul__'', ''__ne__'', ''__new__'', ''__reduce__'',
      ''__reduce_ex__'', ''__repr__'', ''__reversed__'', ''__rmul__'', ''__setattr__'',
      ''__setitem__'', ''__sizeof__'', ''__str__'', ''__subclasshook__'', ''append'', ''clear'',
      ''copy'', ''count'', ''extend'', ''index'', ''insert'', ''pop'', ''remove'', ''reverse'',
      ''sort'']"

definition example_runtime :: "pyval list \<Rightarrow> runtime" where
  "example_runtime results =
     \<lparr>fun_table = (\<lambda>n a. if n < length results then Inr (results ! n) else Inl (Raised ''error'')),
      builtin_attr = (\<lambda>v name. None),
      base_defines = (\<lambda>name. name \<in> set list_names)\<rparr>"

declare merge_trees.simps [simp del]

section \<open>Comprehensions\<close>

lemma comprehension_Inr_iff:
  "comprehension f xs = Inr ys \<longleftrightarrow> list_all2 (\<lambda>x y. f x = Inr y) xs ys"
proof (induction xs arbitrary: ys)
  case Nil
  show ?case by auto
next
  case (Cons x xs)
  show ?case
  proof (cases ys)
    case Nil
    then show ?thesis by (simp split: sum.splits)
  next
    case (Cons y ys')
    with Cons.IH [of ys'] show ?thesis
      by (cases "f x"; cases "comprehension f xs") auto
  qed
qed

lemma comprehension_total:
  "(\<forall>x \<in> set xs. \<exists>y. f x = Inr y) \<Longrightarrow> \<exists>ys. comprehension f xs = Inr ys"
  by (induction xs) (auto split: sum.splits)

lemma comprehension_fails:
  "x \<in> set xs \<Longrightarrow> f x = Inl e \<Longrightarrow> \<exists>e'. comprehension f xs = Inl e'"
  by (induction xs) (auto split: sum.splits)

lemma comprehension_map: "comprehension f (map g xs) = comprehension (\<lambda>x. f (g x)) xs"
  by (induction xs) (simp_all cong: sum.case_cong)

lemma comprehension_append:
  "comprehension f (xs @ ys) =
     (case comprehension f xs of
        Inl e \<Rightarrow> Inl e
      | Inr a \<Rightarrow> (case comprehension f ys of Inl e \<Rightarrow> Inl e | Inr b \<Rightarrow> Inr (a @ b)))"
  by (induction xs) (auto split: sum.splits)

section \<open>Attribute broadcast\<close>

text \<open>
  C1. A name that does not both start and end with a double underscore, and that neither
  the class nor its bases define, is broadcast: the access returns a collection of the
  same length, whose position \<open>i\<close> holds the attribute of element \<open>i\<close> when the
  element has it and the boolean false otherwise.
\<close>

theorem attribute_broadcast:
  assumes "\<not> (startswith name ''__'' \<and> endswith name ''__'')"
    and "name \<notin> set class_names" and "\<not> base_defines rt name"
  shows "\<exists>r. attribute_access rt self name = Inr (Broadcast r) \<and> length r = length self \<and>
           (\<forall>i < length self. r ! i =
              (case py_getattr rt (self ! i) name of Some v \<Rightarrow> v | None \<Rightarrow> PBool False))"
  using assms
  by (simp add: attribute_access_def oc_getattr_def reserved_def ObjectCollection_def
      getattr_default_def)

theorem attribute_broadcast_witness:
  "\<not> (startswith ''b'' ''__'' \<and> endswith ''b'' ''__'') \<and> ''b'' \<notin> set class_names \<and>
   \<not> base_defines (example_runtime []) ''b'' \<and>
   (\<exists>r. attribute_access (example_runtime [])
           [PObj [(''b'', PInt 1)], PObj [(''a'', PInt 2)], PStr ''x''] ''b'' = Inr (Broadcast r) \<and>
         r = [PInt 1, PBool False, PBool False])"
  using attribute_broadcast [of "''b''" "example_runtime []"
      "[PObj [(''b'', PInt 1)], PObj [(''a'', PInt 2)], PStr ''x'']"]
  by (simp add: startswith_def endswith_def class_names_def example_runtime_def list_names_def
      attribute_access_def oc_getattr_def reserved_def ObjectCollection_def getattr_default_def)

text \<open>
  C6. A name that starts and ends with a double underscore, and that neither the class
  nor its bases define, raises \<open>AttributeError\<close>; nothing is broadcast, whatever the
  elements are. The hook raises for every such name; the names that the class statement
  defines (\<open>__dict__\<close>, \<open>__module__\<close>, \<open>__weakref__\<close>, \<open>__doc__\<close>) never
  reach it and resolve to the collection's own attribute.
\<close>

theorem reserved_names_raise:
  assumes "startswith name ''__''" and "endswith name ''__''"
    and "name \<notin> set class_names" and "\<not> base_defines rt name"
  shows "attribute_access rt self name = Inl AttributeError \<and>
         oc_getattr rt self name = Inl AttributeError \<and>
         attribute_access rt self ''__dict__'' = Inr (Own ''__dict__'') \<and>
         attribute_access rt self ''__module__'' = Inr (Own ''__module__'') \<and>
         attribute_access rt self ''__weakref__'' = Inr (Own ''__weakref__'') \<and>
         attribute_access rt self ''__doc__'' = Inr (Own ''__doc__'')"
proof -
  from assms have hook: "oc_getattr rt self name = Inl AttributeError"
    by (simp add: oc_getattr_def reserved_def)
  with assms have "attribute_access rt self name = Inl AttributeError"
    by (simp add: attribute_access_def)
  moreover have "attribute_access rt self ''__dict__'' = Inr (Own ''__dict__'')"
    and "attribute_access rt self ''__module__'' = Inr (Own ''__module__'')"
    and "attribute_access rt self ''__weakref__'' = Inr (Own ''__weakref__'')"
    and "attribute_access rt self ''__doc__'' = Inr (Own ''__doc__'')"
    by (simp_all add: attribute_access_def class_names_def)
  ultimately show ?thesis using hook by simp
qed

theorem reserved_names_raise_witness:
  "startswith ''__foo__'' ''__'' \<and> endswith ''__foo__'' ''__'' \<and>
   ''__foo__'' \<notin> set class_names \<and> \<not> base_defines (example_runtime []) ''__foo__'' \<and>
   attribute_access (example_runtime []) [PObj [(''__foo__'', PInt 1)]] ''__foo__''
     = Inl AttributeError \<and>
   attribute_access (example_runtime []) [PObj [(''__foo__'', PInt 1)]] ''__dict__''
     = Inr (Own ''__dict__'') \<and>
   attribute_access (example_runtime []) [PObj [(''__foo__'', PInt 1)]] ''__len__''
     = Inr (Own ''__len__'')"
proof -
  have h1: "startswith ''__foo__'' ''__''" by (simp add: startswith_def)
  have h2: "endswith ''__foo__'' ''__''" by (simp add: endswith_def)
  have h3: "''__foo__'' \<notin> set class_names" by (simp add: class_names_def)
  have h4: "\<not> base_defines (example_runtime []) ''__foo__''"
    by (simp add: example_runtime_def list_names_def)
  have len: "attribute_access (example_runtime []) [PObj [(''__foo__'', PInt 1)]] ''__len__''
      = Inr (Own ''__len__'')"
    by (simp add: attribute_access_def example_runtime_def list_names_def)
  have dict: "attribute_access (example_runtime []) [PObj [(''__foo__'', PInt 1)]] ''__foo__''
      = Inl AttributeError \<and>
    attribute_access (example_runtime []) [PObj [(''__foo__'', PInt 1)]] ''__dict__''
      = Inr (Own ''__dict__'')"
    using reserved_names_raise [OF h1 h2 h3 h4, of "[PObj [(''__foo__'', PInt 1)]]"] by blast
  from h1 h2 h3 h4 dict len show ?thesis by blast
qed

text \<open>
  C8. The chained access \<open>coll.b.c\<close> is the broadcast of \<open>c\<close> over the collection
  that the broadcast of \<open>b\<close> returns, and neither access raises. A position whose
  element has no \<open>b\<close> holds false after the first access and, \<open>False\<close> having no
  attribute \<open>c\<close>, false again after the second; a position whose element has a \<open>b\<close>
  holds that value and then its \<open>c\<close>, or false when the value has none.
\<close>

theorem chained_broadcast:
  assumes "\<not> base_defines rt ''b''" and "\<not> base_defines rt ''c''"
    and "builtin_attr rt (PBool False) ''c'' = None"
  shows "\<exists>bs cs.
           attribute_access rt self ''b'' = Inr (Broadcast bs) \<and>
           attribute_access rt bs ''c'' = Inr (Broadcast cs) \<and>
           oc_getattr rt self ''b'' = Inr bs \<and> oc_getattr rt bs ''c'' = Inr cs \<and>
           length bs = length self \<and> length cs = length self \<and>
           (\<forall>i < length self.
              case py_getattr rt (self ! i) ''b'' of
                None \<Rightarrow> bs ! i = PBool False \<and> cs ! i = PBool False
              | Some v \<Rightarrow> bs ! i = v \<and>
                  cs ! i = (case py_getattr rt v ''c'' of Some w \<Rightarrow> w | None \<Rightarrow> PBool False))"
  using assms
  by (simp add: attribute_access_def oc_getattr_def reserved_def startswith_def endswith_def
      class_names_def ObjectCollection_def getattr_default_def split: option.splits)

theorem chained_broadcast_witness:
  "\<exists>bs cs.
     attribute_access (example_runtime [])
        [PObj [(''b'', PObj [(''c'', PInt 1)])], PObj [(''a'', PInt 2)], PObj [(''b'', PInt 3)]] ''b''
       = Inr (Broadcast bs) \<and>
     attribute_access (example_runtime []) bs ''c'' = Inr (Broadcast cs) \<and>
     bs = [PObj [(''c'', PInt 1)], PBool False, PInt 3] \<and>
     cs = [PInt 1, PBool False, PBool False]"
  using chained_broadcast [of "example_runtime []"
      "[PObj [(''b'', PObj [(''c'', PInt 1)])], PObj [(''a'', PInt 2)], PObj [(''b'', PInt 3)]]"]
  by (simp add: example_runtime_def list_names_def attribute_access_def oc_getattr_def reserved_def
      startswith_def endswith_def class_names_def ObjectCollection_def getattr_default_def)

text \<open>
  C10. A name that the class or one of its bases defines resolves to the collection's
  own attribute and is not broadcast, whatever attributes the elements have; a broadcast
  happens only for a name that neither defines. \<open>filter\<close>, \<open>apply\<close> and
  \<open>collection_tree\<close> are such names in every runtime, the methods of \<open>list\<close> in a
  runtime whose bases define them.
\<close>

theorem own_names_not_broadcast:
  shows "(name \<in> set class_names \<or> base_defines rt name \<longrightarrow>
            attribute_access rt self name = Inr (Own name)) \<and>
         (\<forall>r. attribute_access rt self name = Inr (Broadcast r) \<longrightarrow>
            name \<notin> set class_names \<and> \<not> base_defines rt name) \<and>
         attribute_access rt self ''filter'' = Inr (Own ''filter'') \<and>
         attribute_access rt self ''apply'' = Inr (Own ''apply'') \<and>
         attribute_access rt self ''collection_tree'' = Inr (Own ''collection_tree'')"
  by (auto simp: attribute_access_def class_names_def split: sum.splits if_splits)

theorem own_names_not_broadcast_witness:
  "attribute_access (example_runtime []) [PObj [(''filter'', PInt 1), (''sort'', PInt 2)]] ''filter''
     = Inr (Own ''filter'') \<and>
   attribute_access (example_runtime []) [PObj [(''filter'', PInt 1), (''sort'', PInt 2)]] ''sort''
     = Inr (Own ''sort'') \<and>
   attribute_access (example_runtime []) [PObj [(''filter'', PInt 1), (''sort'', PInt 2)]] ''a''
     = Inr (Broadcast [PBool False])"
  using own_names_not_broadcast [of "''filter''" "example_runtime []"
      "[PObj [(''filter'', PInt 1), (''sort'', PInt 2)]]"]
    own_names_not_broadcast [of "''sort''" "example_runtime []"
      "[PObj [(''filter'', PInt 1), (''sort'', PInt 2)]]"]
  by (simp add: example_runtime_def list_names_def attribute_access_def oc_getattr_def reserved_def
      startswith_def endswith_def class_names_def ObjectCollection_def getattr_default_def)

section \<open>Call broadcast\<close>

text \<open>
  C5. When the call of every truthy element returns, calling the collection returns a
  collection of the same length: position \<open>i\<close> holds the result of calling element
  \<open>i\<close> with the arguments when the element is truthy, and \<open>None\<close> when it is falsy.
\<close>

theorem call_broadcast:
  assumes "\<forall>obj \<in> set self. py_truthy obj \<longrightarrow> (\<exists>v. py_call rt obj a = Inr v)"
  shows "\<exists>r. oc_call rt self a = Inr r \<and> length r = length self \<and>
           (\<forall>i < length self.
              if py_truthy (self ! i) then py_call rt (self ! i) a = Inr (r ! i)
              else r ! i = PNone)"
proof -
  let ?f = "\<lambda>obj. if py_truthy obj then py_call rt obj a else Inr PNone"
  from assms have "\<forall>obj \<in> set self. \<exists>v. ?f obj = Inr v"
    by auto
  then obtain r where r: "comprehension ?f self = Inr r"
    using comprehension_total [of self ?f] by blast
  then have all2: "list_all2 (\<lambda>x y. ?f x = Inr y) self r"
    by (simp add: comprehension_Inr_iff)
  then have len: "length r = length self"
    by (simp add: list_all2_lengthD)
  have "\<forall>i < length self. ?f (self ! i) = Inr (r ! i)"
    using all2 by (simp add: list_all2_conv_all_nth)
  then have "\<forall>i < length self.
      if py_truthy (self ! i) then py_call rt (self ! i) a = Inr (r ! i) else r ! i = PNone"
    by (auto split: if_splits)
  with r len show ?thesis
    by (simp add: oc_call_def ObjectCollection_def)
qed

theorem call_broadcast_witness:
  "\<exists>r. oc_call (example_runtime [PInt 7]) [PFun 0, PBool False, PFun 0, PNone, PInt 0]
          ([PStr ''x''], []) = Inr r \<and>
       r = [PInt 7, PNone, PInt 7, PNone, PNone]"
  using call_broadcast [of "[PFun 0, PBool False, PFun 0, PNone, PInt 0]"
      "example_runtime [PInt 7]" "([PStr ''x''], [])"]
  by (simp add: example_runtime_def list_names_def oc_call_def ObjectCollection_def)

section \<open>Filter\<close>

lemma filter_comprehension_Inr_iff:
  "filter_comprehension f xs = Inr r \<longleftrightarrow>
     (\<forall>x \<in> set xs. \<exists>t. f x = Inr t) \<and> r = filter (satisfies f) xs"
proof (induction xs arbitrary: r)
  case Nil
  show ?case by auto
next
  case (Cons x xs)
  show ?case
  proof (cases "f x")
    case (Inl e)
    then show ?thesis by auto
  next
    case fx: (Inr t)
    show ?thesis
    proof (cases "filter_comprehension f xs")
      case (Inl e)
      with Cons.IH [of "filter (satisfies f) xs"] fx show ?thesis by auto
    next
      case (Inr r')
      with Cons.IH [of r'] fx show ?thesis by (auto simp: satisfies_def)
    qed
  qed
qed

lemma filter_oc_Inr_iff:
  "filter_oc self f = Inr r \<longleftrightarrow>
     (\<forall>x \<in> set self. \<exists>t. f x = Inr t) \<and> r = filter (satisfies f) self"
  using filter_comprehension_Inr_iff [of f self r]
  by (auto simp: filter_oc_def ObjectCollection_def split: sum.splits)

lemma py_and_returns:
  "(\<exists>t. py_and p q x = Inr t) \<longleftrightarrow> (\<exists>t. p x = Inr t) \<and> (satisfies p x \<longrightarrow> (\<exists>t. q x = Inr t))"
  by (auto simp: py_and_def satisfies_def split: sum.splits)

lemma satisfies_py_and: "satisfies (py_and p q) = (\<lambda>x. satisfies p x \<and> satisfies q x)"
  by (rule ext) (auto simp: py_and_def satisfies_def split: sum.splits)

text \<open>
  Filtering twice and filtering once with the conjunction return the same collection, and
  one raises exactly when the other does.
\<close>

lemma filter_twice_iff:
  "(case filter_oc self p of Inl e \<Rightarrow> Inl e | Inr r \<Rightarrow> filter_oc r q) = Inr r'
     \<longleftrightarrow> filter_oc self (py_and p q) = Inr r'"
proof -
  have "(case filter_oc self p of Inl e \<Rightarrow> Inl e | Inr r \<Rightarrow> filter_oc r q) = Inr r'
     \<longleftrightarrow> (\<exists>r. filter_oc self p = Inr r \<and> filter_oc r q = Inr r')"
    by (cases "filter_oc self p") auto
  also have "\<dots> \<longleftrightarrow> (\<forall>x \<in> set self. \<exists>t. p x = Inr t) \<and>
      (\<forall>x \<in> set self. satisfies p x \<longrightarrow> (\<exists>t. q x = Inr t)) \<and>
      r' = filter (satisfies q) (filter (satisfies p) self)"
    by (auto simp: filter_oc_Inr_iff)
  also have "\<dots> \<longleftrightarrow> filter_oc self (py_and p q) = Inr r'"
    by (auto simp: filter_oc_Inr_iff py_and_returns satisfies_py_and conj_commute cong: filter_cong)
  finally show ?thesis .
qed

text \<open>
  C7. When the predicate returns on every element, \<open>filter\<close> returns the elements on
  which it is truthy, in their original order; the receiver is a value of the model and
  is not changed. Filtering with \<open>p\<close> and then with \<open>q\<close> is filtering once with
  the conjunction of \<open>p\<close> and \<open>q\<close>.
\<close>

theorem filter_spec:
  assumes p: "\<forall>obj \<in> set self. \<exists>t. p obj = Inr t"
    and q: "\<forall>obj \<in> set self. satisfies p obj \<longrightarrow> (\<exists>t. q obj = Inr t)"
  shows "filter_oc self p = Inr (filter (satisfies p) self) \<and>
         subseq (filter (satisfies p) self) self \<and>
         (case filter_oc self p of Inl e \<Rightarrow> Inl e | Inr r \<Rightarrow> filter_oc r q)
           = filter_oc self (py_and p q) \<and>
         filter_oc self (py_and p q) = Inr (filter (\<lambda>obj. satisfies p obj \<and> satisfies q obj) self)"
proof -
  have one: "filter_oc self p = Inr (filter (satisfies p) self)"
    using p by (simp add: filter_oc_Inr_iff)
  have both: "filter_oc self (py_and p q) = Inr (filter (\<lambda>obj. satisfies p obj \<and> satisfies q obj) self)"
    using p q by (simp add: filter_oc_Inr_iff py_and_returns satisfies_py_and)
  then have "(case filter_oc self p of Inl e \<Rightarrow> Inl e | Inr r \<Rightarrow> filter_oc r q)
      = filter_oc self (py_and p q)"
    using filter_twice_iff [where self = self and p = p and q = q] by (cases "filter_oc self p") auto
  with one both show ?thesis by simp
qed

theorem filter_spec_witness:
  "filter_oc [PInt 1, PInt 3, PInt 4, PInt 5]
      (\<lambda>obj. case obj of PInt i \<Rightarrow> Inr (PBool (2 < i)) | _ \<Rightarrow> Inl TypeError)
     = Inr [PInt 3, PInt 4, PInt 5] \<and>
   (case filter_oc [PInt 1, PInt 3, PInt 4, PInt 5]
           (\<lambda>obj. case obj of PInt i \<Rightarrow> Inr (PBool (2 < i)) | _ \<Rightarrow> Inl TypeError) of
      Inl e \<Rightarrow> Inl e
    | Inr r \<Rightarrow> filter_oc r (\<lambda>obj. case obj of PInt i \<Rightarrow> Inr (PInt (i mod 2)) | _ \<Rightarrow> Inl TypeError))
     = Inr [PInt 3, PInt 5] \<and>
   filter_oc [PInt 1, PInt 3, PInt 4, PInt 5]
      (py_and (\<lambda>obj. case obj of PInt i \<Rightarrow> Inr (PBool (2 < i)) | _ \<Rightarrow> Inl TypeError)
              (\<lambda>obj. case obj of PInt i \<Rightarrow> Inr (PInt (i mod 2)) | _ \<Rightarrow> Inl TypeError))
     = Inr [PInt 3, PInt 5]"
  using filter_spec [of "[PInt 1, PInt 3, PInt 4, PInt 5]"
      "\<lambda>obj. case obj of PInt i \<Rightarrow> Inr (PBool (2 < i)) | _ \<Rightarrow> Inl TypeError"
      "\<lambda>obj. case obj of PInt i \<Rightarrow> Inr (PInt (i mod 2)) | _ \<Rightarrow> Inl TypeError"]
  by (simp add: satisfies_def filter_oc_def py_and_def ObjectCollection_def)

section \<open>Tree merge\<close>

lemma not_reserved_tree: "\<not> reserved ''tree''"
  by (simp add: reserved_def startswith_def)

lemma collection_tree_conv:
  "collection_tree rt self =
     (case comprehension (tree_of rt) self of
        Inl e \<Rightarrow> Inl e
      | Inr trees \<Rightarrow> merge_all rt (PDict []) trees)"
proof -
  have "tree_of rt = (\<lambda>obj. if py_truthy (getattr_default rt obj ''tree'' (PBool False))
      then py_call rt (getattr_default rt obj ''tree'' (PBool False)) no_args else Inr PNone)"
    by (rule ext) (simp add: tree_of_def Let_def)
  then show ?thesis
    by (simp add: collection_tree_def oc_getattr_def not_reserved_tree oc_call_def
        ObjectCollection_def comprehension_map split: sum.splits)
qed

lemma tree_of_broadcasts:
  "(case oc_getattr rt [obj] ''tree'' of Inl e \<Rightarrow> Inl e | Inr ms \<Rightarrow> oc_call rt ms no_args)
     = (case tree_of rt obj of Inl e \<Rightarrow> Inl e | Inr t \<Rightarrow> Inr [t])"
  by (simp add: oc_getattr_def not_reserved_tree oc_call_def ObjectCollection_def tree_of_def
      Let_def split: sum.splits)

lemma merge_all_append:
  "merge_all rt acc (ts @ us) =
     (case merge_all rt acc ts of Inl e \<Rightarrow> Inl e | Inr acc' \<Rightarrow> merge_all rt acc' us)"
  by (induction ts arbitrary: acc) (auto split: sum.splits)

lemma merge_falsy: "\<not> py_truthy other \<Longrightarrow> merge_trees rt target other = Inr target"
  by (simp add: merge_trees.simps)

lemma merge_all_skip:
  "\<not> py_truthy t \<Longrightarrow> merge_all rt acc (ts @ t # us) = merge_all rt acc (ts @ us)"
  by (simp add: merge_all_append merge_falsy split: sum.splits)

lemma collection_tree_skip:
  assumes "tree_of rt obj = Inr t" and "\<not> py_truthy t"
  shows "collection_tree rt (xs @ obj # ys) = collection_tree rt (xs @ ys)"
  using assms
  by (auto simp: collection_tree_conv comprehension_append merge_all_skip split: sum.splits)

lemma collection_tree_fails:
  assumes "tree_of rt obj = Inl e"
  shows "\<exists>e'. collection_tree rt (xs @ obj # ys) = Inl e'"
proof -
  obtain e' where "comprehension (tree_of rt) (xs @ obj # ys) = Inl e'"
    using comprehension_fails [of obj "xs @ obj # ys" "tree_of rt" e] assms by auto
  then show ?thesis by (simp add: collection_tree_conv)
qed

lemma update_absent: "k \<notin> set (map fst kvs) \<Longrightarrow> AList.update k v kvs = kvs @ [(k, v)]"
  by (induction kvs) auto

lemma merge_items_disjoint:
  "distinct (map fst vs) \<Longrightarrow> set (map fst vs) \<inter> set (map fst cs) = {} \<Longrightarrow>
     merge_items rt (PDict cs) (map Inr vs) = Inr (PDict (cs @ vs))"
proof (induction vs arbitrary: cs)
  case Nil
  show ?case by simp
next
  case (Cons kv vs)
  obtain k v where kv: "kv = (k, v)" by (cases kv)
  from Cons.prems kv have absent: "k \<notin> set (map fst cs)" by auto
  from Cons.prems kv have "distinct (map fst vs)"
    and "set (map fst vs) \<inter> set (map fst (cs @ [(k, v)])) = {}" by auto
  then have "merge_items rt (PDict (cs @ [(k, v)])) (map Inr vs) = Inr (PDict ((cs @ [(k, v)]) @ vs))"
    by (rule Cons.IH)
  with absent kv show ?case by (simp add: update_absent)
qed

lemma merge_trees_disjoint:
  assumes "distinct (map fst vs)" and "set (map fst vs) \<inter> set (map fst cs) = {}"
  shows "merge_trees rt (PDict cs) (PDict vs) = Inr (PDict (cs @ vs))"
proof (cases vs)
  case Nil
  then show ?thesis by (simp add: merge_trees.simps)
next
  case (Cons kv vs')
  with merge_items_disjoint [OF assms, of rt] show ?thesis
    by (simp add: merge_trees.simps py_items_def)
qed

lemma merge_single_present:
  assumes "map_of t k = Some sub"
  shows "merge_trees rt (PDict t) (PDict [(k, v)]) =
           (case merge_trees rt sub v of
              Inl e \<Rightarrow> Inl e
            | Inr sub' \<Rightarrow> Inr (PDict (AList.update k sub' t)))"
proof -
  from assms have "k \<in> set (map fst t)"
    by (metis map_of_eq_None_iff option.distinct(1) set_map)
  with assms show ?thesis
    by (simp add: merge_trees.simps [of rt "PDict t"] py_items_def split: sum.splits)
qed

text \<open>Merging a mapping is the loop over its items.\<close>

lemma merge_items_Nil_conv:
  "merge_trees rt acc (PDict kvs) = merge_items rt acc (map Inr kvs)"
  by (cases kvs) (simp_all add: merge_trees.simps py_items_def)

lemma merge_items_step:
  "merge_items rt acc (Inr (k, v) # its) =
     (case merge_items rt acc [Inr (k, v)] of
        Inl e \<Rightarrow> Inl e
      | Inr acc' \<Rightarrow> merge_items rt acc' its)"
  by (simp split: sum.splits bool.splits)

text \<open>
  A mapping is merged key by key: its first item, then the mapping of the items that
  follow, into the accumulator the first item left.
\<close>

lemma merge_trees_key_by_key:
  "merge_trees rt acc (PDict ((k, v) # kvs)) =
     (case merge_trees rt acc (PDict [(k, v)]) of
        Inl e \<Rightarrow> Inl e
      | Inr acc' \<Rightarrow> merge_trees rt acc' (PDict kvs))"
proof -
  have "merge_trees rt acc (PDict ((k, v) # kvs)) = merge_items rt acc (Inr (k, v) # map Inr kvs)"
    by (simp only: merge_items_Nil_conv list.map)
  also have "\<dots> = (case merge_items rt acc [Inr (k, v)] of
        Inl e \<Rightarrow> Inl e
      | Inr acc' \<Rightarrow> merge_items rt acc' (map Inr kvs))"
    by (rule merge_items_step)
  also have "\<dots> = (case merge_trees rt acc (PDict [(k, v)]) of
        Inl e \<Rightarrow> Inl e
      | Inr acc' \<Rightarrow> merge_trees rt acc' (PDict kvs))"
    by (simp only: merge_items_Nil_conv list.map)
  finally show ?thesis .
qed

lemma merge_single_absent:
  assumes "k \<notin> set (map fst t)"
  shows "merge_trees rt (PDict t) (PDict [(k, v)]) = Inr (PDict (t @ [(k, v)]))"
  using assms by (simp add: merge_trees.simps py_items_def update_absent)

lemma tree_of_missing: "py_getattr rt obj ''tree'' = None \<Longrightarrow> tree_of rt obj = Inr PNone"
  by (simp add: tree_of_def getattr_default_def)

lemma tree_of_not_callable:
  "py_getattr rt obj ''tree'' = Some m \<Longrightarrow> py_truthy m \<Longrightarrow> \<forall>n. m \<noteq> PFun n \<Longrightarrow>
     tree_of rt obj = Inl TypeError"
  by (cases m) (simp_all add: tree_of_def getattr_default_def)

lemma collection_tree_two:
  assumes "tree_of rt e1 = Inr t1" and "tree_of rt e2 = Inr t2"
  shows "collection_tree rt [e1, e2] =
           (case merge_trees rt (PDict []) t1 of
              Inl e \<Rightarrow> Inl e
            | Inr acc \<Rightarrow> merge_trees rt acc t2)"
  using assms by (simp add: collection_tree_conv split: sum.splits)

lemma merge_into_empty:
  "merge_trees rt (PDict []) (PDict [(k, v)]) = Inr (PDict [(k, v)])"
  by (simp add: merge_trees.simps py_items_def)

lemma grown_PDict_iff:
  "grown (PDict kvs) new \<longleftrightarrow>
     (\<exists>kvs'. new = PDict kvs' \<and>
        (\<forall>k v. map_of kvs k = Some v \<longrightarrow> (\<exists>v'. map_of kvs' k = Some v' \<and> grown v v')))"
proof (cases new)
  case (PDict kvs')
  have keys: "k \<in> fst ` set kvs" if "map_of kvs k = Some v" for k v
    using that by (metis map_of_eq_None_iff option.distinct(1))
  have pointwise: "(case map_of kvs k of
        None \<Rightarrow> True
      | Some v \<Rightarrow> (case map_of kvs' k of None \<Rightarrow> False | Some v' \<Rightarrow> grown v v'))
      \<longleftrightarrow> (\<forall>v. map_of kvs k = Some v \<longrightarrow> (\<exists>v'. map_of kvs' k = Some v' \<and> grown v v'))" for k
    by (cases "map_of kvs k"; cases "map_of kvs' k") auto
  have "grown (PDict kvs) (PDict kvs') \<longleftrightarrow>
      (\<forall>k \<in> fst ` set kvs. \<forall>v. map_of kvs k = Some v \<longrightarrow>
         (\<exists>v'. map_of kvs' k = Some v' \<and> grown v v'))"
    by (simp only: grown.simps pyval.case list_all_iff pointwise set_map)
  also have "\<dots> \<longleftrightarrow>
      (\<forall>k v. map_of kvs k = Some v \<longrightarrow> (\<exists>v'. map_of kvs' k = Some v' \<and> grown v v'))"
    using keys by blast
  finally show ?thesis using PDict by simp
qed auto

declare grown.simps(1) [simp del]

lemma grown_not_PDict: "\<forall>kvs. t \<noteq> PDict kvs \<Longrightarrow> grown t new \<longleftrightarrow> new = t"
  by (cases t) auto

lemma grown_refl: "grown t t"
proof (induction t)
  case (PDict kvs)
  have "grown v v" if "map_of kvs k = Some v" for k v
  proof -
    from that have "(k, v) \<in> set kvs" by (rule map_of_SomeD)
    then show ?thesis using PDict.IH [of "(k, v)" v] by simp
  qed
  then show ?case by (simp add: grown_PDict_iff)
qed auto

lemma grown_trans: "grown a b \<Longrightarrow> grown b c \<Longrightarrow> grown a c"
proof (induction a arbitrary: b c)
  case (PDict kvs)
  from PDict.prems(1) obtain kvs' where b: "b = PDict kvs'"
    and ab: "\<And>k v. map_of kvs k = Some v \<Longrightarrow> \<exists>v'. map_of kvs' k = Some v' \<and> grown v v'"
    by (auto simp: grown_PDict_iff)
  from PDict.prems(2) b obtain kvs'' where c: "c = PDict kvs''"
    and bc: "\<And>k v. map_of kvs' k = Some v \<Longrightarrow> \<exists>v'. map_of kvs'' k = Some v' \<and> grown v v'"
    by (auto simp: grown_PDict_iff)
  have "\<exists>v''. map_of kvs'' k = Some v'' \<and> grown v v''" if kv: "map_of kvs k = Some v" for k v
  proof -
    from ab [OF kv] obtain v' where v': "map_of kvs' k = Some v'" "grown v v'" by blast
    from bc [OF v'(1)] obtain v'' where v'': "map_of kvs'' k = Some v''" "grown v' v''" by blast
    from kv have "(k, v) \<in> set kvs" by (rule map_of_SomeD)
    then have "grown v v''" using PDict.IH [of "(k, v)" v v' v''] v'(2) v''(2) by simp
    with v''(1) show ?thesis by blast
  qed
  with c show ?case by (simp add: grown_PDict_iff)
qed auto

lemma grown_insert:
  assumes "k \<notin> set (map fst kvs)"
  shows "grown (PDict kvs) (PDict (AList.update k v kvs))"
proof -
  have "\<exists>v'. map_of (AList.update k v kvs) k' = Some v' \<and> grown w v'"
    if "map_of kvs k' = Some w" for k' w
  proof -
    from that assms have "k' \<noteq> k"
      by (metis map_of_eq_None_iff option.distinct(1) set_map)
    with that show ?thesis by (simp add: AList.update_conv' grown_refl)
  qed
  then show ?thesis by (simp add: grown_PDict_iff)
qed

lemma grown_mutated:
  assumes "py_getitem target key = Inr sub" and "grown sub sub'"
  shows "grown target (mutated target key sub')"
proof (cases target)
  case (PDict kvs)
  with assms(1) have sub: "map_of kvs key = Some sub" by (auto split: option.splits)
  have "\<exists>v'. map_of (AList.update key sub' kvs) k' = Some v' \<and> grown w v'"
    if "map_of kvs k' = Some w" for k' w
    using that sub assms(2) by (cases "k' = key") (auto simp: AList.update_conv' grown_refl)
  with PDict show ?thesis by (simp add: grown_PDict_iff)
qed (use assms in auto)

text \<open>A merge that returns has only inserted: nothing stored before is overwritten.\<close>

lemma merge_grows:
  "\<forall>r. merge_trees rt target other = Inr r \<longrightarrow> grown target r"
  "\<forall>r. merge_items rt target its = Inr r \<longrightarrow> grown target r"
proof (induction rt target other and rt target its rule: merge_trees_merge_items.induct)
  case (1 rt target other)
  then show ?case
    by (auto simp: merge_trees.simps [of rt target other] grown_refl split: sum.splits)
next
  case (2 rt target)
  show ?case by (simp add: grown_refl)
next
  case (3 rt target it its)
  show ?case
  proof (intro allI impI)
    fix r
    assume r: "merge_items rt target (it # its) = Inr r"
    then obtain key "value" where it: "it = Inr (key, value)"
      by (cases it) auto
    from r it obtain c where c: "py_contains target key = Inr c"
      by (cases "py_contains target key") auto
    show "grown target r"
    proof (cases c)
      case False
      with r it c obtain target' where set: "py_setitem target key value = Inr target'"
        and rest: "merge_items rt target' its = Inr r"
        by (cases "py_setitem target key value") auto
      from set obtain kvs where t: "target = PDict kvs" "target' = PDict (AList.update key value kvs)"
        by (cases target) auto
      with c False have "key \<notin> set (map fst kvs)" by simp
      then have "grown target target'" using t by (simp add: grown_insert)
      moreover have "grown target' r"
        using 3(3) [OF it refl c _ set] False rest by simp
      ultimately show ?thesis by (rule grown_trans)
    next
      case True
      with r it c obtain sub where sub: "py_getitem target key = Inr sub"
        by (cases "py_getitem target key") auto
      with r it c True obtain sub' where sub': "merge_trees rt sub value = Inr sub'"
        and rest: "merge_items rt (mutated target key sub') its = Inr r"
        by (cases "merge_trees rt sub value") auto
      have "grown sub sub'"
        using 3(1) [OF it refl c _ sub] True sub' by simp
      with sub have "grown target (mutated target key sub')" by (rule grown_mutated)
      moreover have "grown (mutated target key sub') r"
        using 3(2) [OF it refl c _ sub sub'] True rest by simp
      ultimately show ?thesis by (rule grown_trans)
    qed
  qed
qed

text \<open>
  C9. A tree value that is falsy (\<open>None\<close>, false, an empty mapping), the \<open>None\<close> that
  stands for a missing \<open>tree\<close> attribute included, is skipped: merging it leaves the
  accumulator as it is and raises nothing, and the result of \<open>collection_tree\<close> is the
  result without the element.
\<close>

theorem falsy_tree_skipped:
  assumes "tree_of rt obj = Inr t" and "\<not> py_truthy t"
  shows "merge_trees rt target t = Inr target \<and>
         merge_all rt target (ts @ t # us) = merge_all rt target (ts @ us) \<and>
         collection_tree rt (xs @ obj # ys) = collection_tree rt (xs @ ys) \<and>
         collection_tree rt [obj] = Inr (PDict []) \<and>
         (py_getattr rt x ''tree'' = None \<longrightarrow> tree_of rt x = Inr PNone) \<and>
         \<not> py_truthy PNone \<and> \<not> py_truthy (PBool False) \<and> \<not> py_truthy (PDict [])"
proof -
  from assms have "collection_tree rt [obj] = Inr (PDict [])"
    by (simp add: collection_tree_conv merge_falsy)
  with assms show ?thesis
    by (simp add: merge_falsy merge_all_skip collection_tree_skip tree_of_missing)
qed

theorem falsy_tree_skipped_witness:
  "collection_tree (example_runtime [PDict [(''a'', PInt 1)], PDict [], PNone])
      ([PObj [(''tree'', PFun 1)], PObj [(''tree'', PFun 0)]] @ PObj [(''tree'', PFun 2)] # [PObj []])
     = Inr (PDict [(''a'', PInt 1)]) \<and>
   merge_trees (example_runtime []) (PDict [(''a'', PInt 1)]) PNone = Inr (PDict [(''a'', PInt 1)])"
proof -
  let ?rt = "example_runtime [PDict [(''a'', PInt 1)], PDict [], PNone]"
  have t: "tree_of ?rt (PObj [(''tree'', PFun 2)]) = Inr PNone"
    by (simp add: tree_of_def getattr_default_def example_runtime_def list_names_def)
  have f: "\<not> py_truthy PNone" by simp
  have "collection_tree ?rt ([PObj [(''tree'', PFun 1)], PObj [(''tree'', PFun 0)]] @ [PObj []])
      = Inr (PDict [(''a'', PInt 1)])"
    by (simp add: collection_tree_def oc_getattr_def reserved_def startswith_def oc_call_def
      ObjectCollection_def getattr_default_def example_runtime_def list_names_def no_args_def
      merge_trees.simps py_items_def)
  moreover have "merge_trees (example_runtime []) (PDict [(''a'', PInt 1)]) PNone
      = Inr (PDict [(''a'', PInt 1)])"
    by (simp add: merge_trees.simps)
  ultimately show ?thesis
    using falsy_tree_skipped [OF t f, of "PDict []" "[]" "[]"
        "[PObj [(''tree'', PFun 1)], PObj [(''tree'', PFun 0)]]" "[PObj []]"]
    by simp
qed

text \<open>
  C2, as stated, fails: of two elements, the second without a \<open>tree\<close> attribute,
  \<open>collection_tree\<close> returns the tree of the first and raises nothing.
\<close>

theorem missing_tree_counterexample:
  "py_getattr (example_runtime [PDict [(''a'', PInt 1)]]) (PObj [(''name'', PStr ''x'')]) ''tree'' = None \<and>
   collection_tree (example_runtime [PDict [(''a'', PInt 1)]])
      [PObj [(''tree'', PFun 0)], PObj [(''name'', PStr ''x'')]] = Inr (PDict [(''a'', PInt 1)])"
  by (simp add: collection_tree_def oc_getattr_def reserved_def startswith_def oc_call_def
      ObjectCollection_def getattr_default_def example_runtime_def list_names_def no_args_def
      merge_trees.simps py_items_def)

text \<open>
  C2, amended. An element without a \<open>tree\<close> attribute is skipped silently: the result
  is the result without the element, and no error is raised. An element whose \<open>tree\<close>
  attribute is truthy and not callable makes \<open>collection_tree\<close> fail: the
  \<open>TypeError\<close> of the call propagates.
\<close>

theorem missing_tree_skipped:
  shows "(py_getattr rt obj ''tree'' = None \<longrightarrow>
            collection_tree rt (xs @ obj # ys) = collection_tree rt (xs @ ys) \<and>
            collection_tree rt [obj] = Inr (PDict [])) \<and>
         (\<forall>m. py_getattr rt obj ''tree'' = Some m \<and> py_truthy m \<and> (\<forall>n. m \<noteq> PFun n) \<longrightarrow>
            (\<exists>e. collection_tree rt (xs @ obj # ys) = Inl e) \<and>
            collection_tree rt [obj] = Inl TypeError)"
proof (intro conjI impI allI)
  assume missing: "py_getattr rt obj ''tree'' = None"
  then have t: "tree_of rt obj = Inr PNone" by (rule tree_of_missing)
  then show "collection_tree rt (xs @ obj # ys) = collection_tree rt (xs @ ys)"
    by (rule collection_tree_skip) simp
  from t show "collection_tree rt [obj] = Inr (PDict [])"
    by (simp add: collection_tree_conv merge_falsy)
next
  fix m
  assume "py_getattr rt obj ''tree'' = Some m \<and> py_truthy m \<and> (\<forall>n. m \<noteq> PFun n)"
  then have t: "tree_of rt obj = Inl TypeError"
    using tree_of_not_callable [of rt obj m] by simp
  then show "\<exists>e. collection_tree rt (xs @ obj # ys) = Inl e"
    by (rule collection_tree_fails)
  from t show "collection_tree rt [obj] = Inl TypeError"
    by (simp add: collection_tree_conv)
qed

theorem missing_tree_skipped_witness:
  "collection_tree (example_runtime [PDict [(''a'', PInt 1)]])
      ([PObj [(''tree'', PFun 0)]] @ PObj [(''name'', PStr ''x'')] # [])
     = collection_tree (example_runtime [PDict [(''a'', PInt 1)]]) ([PObj [(''tree'', PFun 0)]] @ []) \<and>
   collection_tree (example_runtime [PDict [(''a'', PInt 1)]]) [PObj [(''name'', PStr ''x'')]]
     = Inr (PDict []) \<and>
   collection_tree (example_runtime [PDict [(''a'', PInt 1)]]) [PObj [(''tree'', PInt 5)]]
     = Inl TypeError"
  using missing_tree_skipped [of "example_runtime [PDict [(''a'', PInt 1)]]"
      "PObj [(''name'', PStr ''x'')]" "[PObj [(''tree'', PFun 0)]]" "[]"]
    missing_tree_skipped [of "example_runtime [PDict [(''a'', PInt 1)]]"
      "PObj [(''tree'', PInt 5)]" "[]" "[]"]
  by simp

text \<open>
  C3, as stated, fails: for the trees \<open>{"a": 1}\<close> and \<open>{"a": 2}\<close> the merge calls
  itself on \<open>1\<close> and \<open>2\<close>, and \<open>2\<close>, truthy, has no \<open>items\<close>:
  \<open>collection_tree\<close> raises \<open>AttributeError\<close>.
\<close>

theorem second_leaf_counterexample:
  "collection_tree (example_runtime [PDict [(''a'', PInt 1)], PDict [(''a'', PInt 2)]])
      [PObj [(''tree'', PFun 0)], PObj [(''tree'', PFun 1)]] = Inl AttributeError"
  by (simp add: collection_tree_def oc_getattr_def reserved_def startswith_def oc_call_def
      ObjectCollection_def getattr_default_def example_runtime_def list_names_def no_args_def
      merge_trees.simps py_items_def)

text \<open>
  C3, amended. When two elements supply a value under the same key and the second value
  is falsy (\<open>None\<close>, false, zero, an empty string or mapping), the second value is
  ignored and the first is kept, with no error.
\<close>

theorem second_falsy_ignored:
  assumes "\<not> py_truthy v2"
  shows "(map_of t k = Some v1 \<longrightarrow> merge_trees rt (PDict t) (PDict [(k, v2)]) = Inr (PDict t)) \<and>
         (tree_of rt e1 = Inr (PDict [(k, v1)]) \<and> tree_of rt e2 = Inr (PDict [(k, v2)]) \<longrightarrow>
            collection_tree rt [e1, e2] = Inr (PDict [(k, v1)]))"
proof -
  have step: "merge_trees rt (PDict t') (PDict [(k, v2)]) = Inr (PDict t')"
    if "map_of t' k = Some v1" for t'
    using that assms
    by (simp add: merge_single_present [OF that] merge_falsy AList.update_triv)
  have "merge_trees rt (PDict [(k, v1)]) (PDict [(k, v2)]) = Inr (PDict [(k, v1)])"
    by (rule step) simp
  then show ?thesis
    using step [of t] by (auto simp: collection_tree_two merge_into_empty)
qed

theorem second_falsy_ignored_witness:
  "collection_tree (example_runtime [PDict [(''a'', PInt 1)], PDict [(''a'', PInt 0)]])
      [PObj [(''tree'', PFun 0)], PObj [(''tree'', PFun 1)]] = Inr (PDict [(''a'', PInt 1)]) \<and>
   merge_trees (example_runtime []) (PDict [(''b'', PInt 3), (''a'', PInt 1)]) (PDict [(''a'', PNone)])
     = Inr (PDict [(''b'', PInt 3), (''a'', PInt 1)])"
  using second_falsy_ignored [of "PInt 0" "[(''a'', PInt 1)]" "''a''" "PInt 1"
      "example_runtime [PDict [(''a'', PInt 1)], PDict [(''a'', PInt 0)]]"
      "PObj [(''tree'', PFun 0)]" "PObj [(''tree'', PFun 1)]"]
    second_falsy_ignored [of PNone "[(''b'', PInt 3), (''a'', PInt 1)]" "''a''" "PInt 1"
      "example_runtime []"]
  by (simp add: tree_of_def getattr_default_def example_runtime_def list_names_def)

text \<open>
  C4. When the key is present in the accumulator, the incoming value is merged into the
  value stored there by a recursive call. Where both are mappings with different keys,
  the stored mapping keeps its items and gains the incoming ones. Whatever is merged into
  the accumulator, a merge that returns has not overwritten the value stored under the
  key: the value there has grown out of it. For the trees \<open>{"a": {"b": 1}}\<close> and
  \<open>{"a": {"c": 2}}\<close> the result is \<open>{"a": {"b": 1, "c": 2}}\<close>.

  The merge is key by key. After the recursive merge under a key that is present, it goes
  on with the keys that follow in the incoming mapping; a mapping of several keys is
  merged as its first item and then the rest, into any accumulator; and a key that is
  absent is inserted with its value, after the keys already there.
\<close>

theorem nested_mappings_merged:
  assumes "map_of t k = Some sub"
  shows "merge_trees rt (PDict t) (PDict [(k, v)]) =
           (case merge_trees rt sub v of
              Inl e \<Rightarrow> Inl e
            | Inr sub' \<Rightarrow> Inr (PDict (AList.update k sub' t))) \<and>
         (\<forall>cs ds. sub = PDict cs \<and> v = PDict ds \<and> distinct (map fst ds) \<and>
              set (map fst ds) \<inter> set (map fst cs) = {} \<longrightarrow>
            merge_trees rt (PDict t) (PDict [(k, v)])
              = Inr (PDict (AList.update k (PDict (cs @ ds)) t))) \<and>
         (\<forall>other r. merge_trees rt (PDict t) other = Inr r \<longrightarrow>
            (\<exists>t' sub'. r = PDict t' \<and> map_of t' k = Some sub' \<and> grown sub sub')) \<and>
         (tree_of rt e1 = Inr (PDict [(''a'', PDict [(''b'', PInt 1)])]) \<and>
          tree_of rt e2 = Inr (PDict [(''a'', PDict [(''c'', PInt 2)])]) \<longrightarrow>
            collection_tree rt [e1, e2]
              = Inr (PDict [(''a'', PDict [(''b'', PInt 1), (''c'', PInt 2)])])) \<and>
         (\<forall>kvs. merge_trees rt (PDict t) (PDict ((k, v) # kvs)) =
            (case merge_trees rt sub v of
               Inl e \<Rightarrow> Inl e
             | Inr sub' \<Rightarrow> merge_trees rt (PDict (AList.update k sub' t)) (PDict kvs))) \<and>
         (\<forall>acc k' v' kvs. merge_trees rt acc (PDict ((k', v') # kvs)) =
            (case merge_trees rt acc (PDict [(k', v')]) of
               Inl e \<Rightarrow> Inl e
             | Inr acc' \<Rightarrow> merge_trees rt acc' (PDict kvs))) \<and>
         (\<forall>k' v'. k' \<notin> set (map fst t) \<longrightarrow>
            merge_trees rt (PDict t) (PDict [(k', v')]) = Inr (PDict (t @ [(k', v')])))"
proof (intro conjI allI impI)
  show one: "merge_trees rt (PDict t) (PDict [(k, v)]) =
           (case merge_trees rt sub v of
              Inl e \<Rightarrow> Inl e
            | Inr sub' \<Rightarrow> Inr (PDict (AList.update k sub' t)))"
    using assms by (rule merge_single_present)
  show "merge_trees rt (PDict t) (PDict [(k, v)]) = Inr (PDict (AList.update k (PDict (cs @ ds)) t))"
    if "sub = PDict cs \<and> v = PDict ds \<and> distinct (map fst ds) \<and>
        set (map fst ds) \<inter> set (map fst cs) = {}" for cs ds
    using that one by (simp add: merge_trees_disjoint)
  show "\<exists>t' sub'. r = PDict t' \<and> map_of t' k = Some sub' \<and> grown sub sub'"
    if "merge_trees rt (PDict t) other = Inr r" for other r
  proof -
    from that have "grown (PDict t) r" using merge_grows(1) by blast
    with assms show ?thesis by (auto simp: grown_PDict_iff)
  qed
  show "collection_tree rt [e1, e2] = Inr (PDict [(''a'', PDict [(''b'', PInt 1), (''c'', PInt 2)])])"
    if "tree_of rt e1 = Inr (PDict [(''a'', PDict [(''b'', PInt 1)])]) \<and>
        tree_of rt e2 = Inr (PDict [(''a'', PDict [(''c'', PInt 2)])])"
    using that
    by (simp add: collection_tree_two merge_into_empty merge_single_present merge_trees_disjoint)
  show "merge_trees rt (PDict t) (PDict ((k, v) # kvs)) =
      (case merge_trees rt sub v of
         Inl e \<Rightarrow> Inl e
       | Inr sub' \<Rightarrow> merge_trees rt (PDict (AList.update k sub' t)) (PDict kvs))" for kvs
    by (simp add: merge_trees_key_by_key [of rt "PDict t" k v kvs] one split: sum.splits)
  show "merge_trees rt acc (PDict ((k', v') # kvs)) =
      (case merge_trees rt acc (PDict [(k', v')]) of
         Inl e \<Rightarrow> Inl e
       | Inr acc' \<Rightarrow> merge_trees rt acc' (PDict kvs))" for acc k' v' kvs
    by (rule merge_trees_key_by_key)
  show "merge_trees rt (PDict t) (PDict [(k', v')]) = Inr (PDict (t @ [(k', v')]))"
    if "k' \<notin> set (map fst t)" for k' v'
    using that by (rule merge_single_absent)
qed

theorem nested_mappings_merged_witness:
  "collection_tree
      (example_runtime [PDict [(''a'', PDict [(''b'', PInt 1)])], PDict [(''a'', PDict [(''c'', PInt 2)])]])
      [PObj [(''tree'', PFun 0)], PObj [(''tree'', PFun 1)]]
     = Inr (PDict [(''a'', PDict [(''b'', PInt 1), (''c'', PInt 2)])]) \<and>
   merge_trees (example_runtime []) (PDict [(''x'', PInt 0), (''a'', PDict [(''b'', PInt 1)])])
      (PDict [(''a'', PDict [(''c'', PInt 2), (''d'', PNone)])])
     = Inr (PDict [(''x'', PInt 0), (''a'', PDict [(''b'', PInt 1), (''c'', PInt 2), (''d'', PNone)])]) \<and>
   merge_trees (example_runtime []) (PDict [(''a'', PDict []), (''b'', PDict [])])
      (PDict [(''a'', PDict [(''x'', PInt 1)]), (''b'', PDict [(''y'', PInt 2)]), (''c'', PInt 3)])
     = Inr (PDict [(''a'', PDict [(''x'', PInt 1)]), (''b'', PDict [(''y'', PInt 2)]), (''c'', PInt 3)])"
proof -
  let ?rt = "example_runtime [PDict [(''a'', PDict [(''b'', PInt 1)])], PDict [(''a'', PDict [(''c'', PInt 2)])]]"
  have present: "map_of [(''a'', PDict [(''b'', PInt 1)])] ''a'' = Some (PDict [(''b'', PInt 1)])"
    by simp
  have trees: "tree_of ?rt (PObj [(''tree'', PFun 0)]) = Inr (PDict [(''a'', PDict [(''b'', PInt 1)])]) \<and>
      tree_of ?rt (PObj [(''tree'', PFun 1)]) = Inr (PDict [(''a'', PDict [(''c'', PInt 2)])])"
    by (simp add: tree_of_def getattr_default_def example_runtime_def list_names_def)
  have present': "map_of [(''x'', PInt 0), (''a'', PDict [(''b'', PInt 1)])] ''a''
      = Some (PDict [(''b'', PInt 1)])"
    by simp
  have present'': "map_of [(''a'', PDict []), (''b'', PDict [])] ''a'' = Some (PDict [])"
    by simp
  from nested_mappings_merged [OF present, of ?rt "PDict [(''c'', PInt 2)]"
      "PObj [(''tree'', PFun 0)]" "PObj [(''tree'', PFun 1)]"] trees
  have one: "collection_tree ?rt [PObj [(''tree'', PFun 0)], PObj [(''tree'', PFun 1)]]
      = Inr (PDict [(''a'', PDict [(''b'', PInt 1), (''c'', PInt 2)])])"
    by blast
  from nested_mappings_merged [OF present', of "example_runtime []"
      "PDict [(''c'', PInt 2), (''d'', PNone)]"]
  have "\<forall>cs ds. PDict [(''b'', PInt 1)] = PDict cs \<and>
        PDict [(''c'', PInt 2), (''d'', PNone)] = PDict ds \<and> distinct (map fst ds) \<and>
        set (map fst ds) \<inter> set (map fst cs) = {} \<longrightarrow>
      merge_trees (example_runtime []) (PDict [(''x'', PInt 0), (''a'', PDict [(''b'', PInt 1)])])
        (PDict [(''a'', PDict [(''c'', PInt 2), (''d'', PNone)])])
      = Inr (PDict (AList.update ''a'' (PDict (cs @ ds))
          [(''x'', PInt 0), (''a'', PDict [(''b'', PInt 1)])]))"
    by blast
  then have two: "merge_trees (example_runtime []) (PDict [(''x'', PInt 0), (''a'', PDict [(''b'', PInt 1)])])
      (PDict [(''a'', PDict [(''c'', PInt 2), (''d'', PNone)])])
     = Inr (PDict [(''x'', PInt 0), (''a'', PDict [(''b'', PInt 1), (''c'', PInt 2), (''d'', PNone)])])"
    by simp
  from nested_mappings_merged [OF present'', of "example_runtime []" "PDict [(''x'', PInt 1)]"]
  have "\<forall>kvs. merge_trees (example_runtime []) (PDict [(''a'', PDict []), (''b'', PDict [])])
        (PDict ((''a'', PDict [(''x'', PInt 1)]) # kvs)) =
      (case merge_trees (example_runtime []) (PDict []) (PDict [(''x'', PInt 1)]) of
         Inl e \<Rightarrow> Inl e
       | Inr sub' \<Rightarrow> merge_trees (example_runtime [])
           (PDict (AList.update ''a'' sub' [(''a'', PDict []), (''b'', PDict [])])) (PDict kvs))"
    by blast
  then have three: "merge_trees (example_runtime []) (PDict [(''a'', PDict []), (''b'', PDict [])])
      (PDict [(''a'', PDict [(''x'', PInt 1)]), (''b'', PDict [(''y'', PInt 2)]), (''c'', PInt 3)])
     = Inr (PDict [(''a'', PDict [(''x'', PInt 1)]), (''b'', PDict [(''y'', PInt 2)]), (''c'', PInt 3)])"
    by (simp add: merge_trees.simps py_items_def)
  from one two three show ?thesis by simp
qed

end
